theory Spec2Isabelle
  imports Complex_Main "HOL-Library.Word"
begin

section \<open>REINFORCE policy gradient: the notebook's code as HOL functions\<close>

text \<open>
  The development embeds \<^verbatim>\<open>chapter17_deep-reinforcement-learning/policy-gradient.ipynb\<close>:
  the classes \<^verbatim>\<open>Episode\<close>, \<^verbatim>\<open>Agent\<close> and \<^verbatim>\<open>AtariPreprocessedEnv\<close>, the function
  \<^verbatim>\<open>run_episode\<close> and the moving average of the training script.

  Conventions of the embedding.
  \<^item> Python and NDArray floats are the type \<^typ>\<open>real\<close>: all arithmetic is exact, so
    rounding, overflow and NaN are outside the model.
  \<^item> Mutable objects are passed and returned explicitly.
  \<^item> The collaborators the notebook only calls (the gluon network, the gluon trainer,
    the gym environment, numpy's random source) are function parameters.
\<close>

subsection \<open>Episode\<close>

record 'o episode =
  observation :: "'o list"
  action :: "nat list"
  reward :: "real list"

text \<open>\<^verbatim>\<open>Episode.__init__\<close>: three empty lists.\<close>

definition Episode_init :: "'o episode" where
  "Episode_init = \<lparr>observation = [], action = [], reward = []\<rparr>"

text \<open>\<^verbatim>\<open>Episode.append(s, a, r)\<close>: one element at the end of each list.\<close>

definition Episode_append :: "'o episode \<Rightarrow> 'o \<Rightarrow> nat \<Rightarrow> real \<Rightarrow> 'o episode" where
  "Episode_append e s a r =
     e\<lparr>observation := observation e @ [s], action := action e @ [a], reward := reward e @ [r]\<rparr>"

subsection \<open>Array operations used by the agent\<close>

datatype error = ValueError | IndexError | Unmodelled

text \<open>\<^verbatim>\<open>mx.nd.softmax\<close> along the last axis: \<open>exp x\<^sub>j / \<Sum>\<^sub>k exp x\<^sub>k\<close>.\<close>

definition softmax :: "real list \<Rightarrow> real list" where
  "softmax xs = map (\<lambda>x. exp x / sum_list (map exp xs)) xs"

text \<open>\<^verbatim>\<open>mx.nd.clip(x, a_min, a_max)\<close>, one element: \<open>max (min x a_max) a_min\<close>.\<close>

definition clip :: "real \<Rightarrow> real \<Rightarrow> real \<Rightarrow> real" where
  "clip x a_min a_max = max (min x a_max) a_min"

text \<open>\<^verbatim>\<open>policy = mx.nd.clip(policy, 1e-6, 1 - 1e-6)\<close> on one element and on a batch.\<close>

definition clip_prob :: "real \<Rightarrow> real" where
  "clip_prob x = clip x (1 / 10 ^ 6) (1 - 1 / 10 ^ 6)"

definition clip_policy :: "real list list \<Rightarrow> real list list" where
  "clip_policy policy = map (map clip_prob) policy"

text \<open>\<^verbatim>\<open>NDArray.one_hot(depth)\<close> of one index: a row of width \<open>depth\<close>, 1 at the index.\<close>

definition one_hot :: "nat \<Rightarrow> nat \<Rightarrow> real list" where
  "one_hot depth i = map (\<lambda>j. if j = i then 1 else 0) [0..<depth]"

text \<open>
  \<^verbatim>\<open>mx.nd.mean(r)\<close> over all elements. It is only used on a non-empty array:
  \<open>train\<close> below does not reach it for an empty episode.
\<close>

definition nd_mean :: "real list \<Rightarrow> real" where
  "nd_mean xs = sum_list xs / real (length xs)"

subsection \<open>Agent.act\<close>

text \<open>
  The agent holds the number of actions and the parameters of its network. The network
  itself (\<^verbatim>\<open>self.net\<close>, a gluon \<^verbatim>\<open>Sequential\<close> ending in \<^verbatim>\<open>Dense(action_number)\<close>) is the
  parameter \<open>net\<close>: from parameters and one observation to one row of logits.
\<close>

record 'p agent =
  action_number :: nat
  params :: 'p

text \<open>\<^verbatim>\<open>ndarray.cumsum()\<close>.\<close>

fun cumsum_from :: "real \<Rightarrow> real list \<Rightarrow> real list" where
  "cumsum_from acc [] = []"
| "cumsum_from acc (x # xs) = (acc + x) # cumsum_from (acc + x) xs"

definition cumsum :: "real list \<Rightarrow> real list" where
  "cumsum xs = cumsum_from 0 xs"

text \<open>
  \<^verbatim>\<open>cdf.searchsorted(u, side='right')\<close> on a non-decreasing array: the number of
  entries that are at most \<open>u\<close>.
\<close>

definition searchsorted_right :: "real list \<Rightarrow> real \<Rightarrow> nat" where
  "searchsorted_right cdf u = length (filter (\<lambda>c. c \<le> u) cdf)"

text \<open>The tolerance of numpy's check that the probabilities sum to one.\<close>

definition choice_atol :: real where
  "choice_atol = 1 / 2 ^ 26"

text \<open>
  \<^verbatim>\<open>np.random.choice(a, p=p)\<close> for a one-dimensional \<open>a\<close>, as numpy implements it: the
  arguments are validated (each failed check raises \<^verbatim>\<open>ValueError\<close>), then one uniform
  sample \<open>u\<close> of \<open>[0, 1)\<close> is drawn from the random source and looked up in the
  normalised cumulative sums. The random source is the parameter \<open>random_sample\<close>, a
  step on a generator state.
\<close>

definition choice ::
  "('g \<Rightarrow> real \<times> 'g) \<Rightarrow> 'g \<Rightarrow> nat list \<Rightarrow> real list \<Rightarrow> error + (nat \<times> 'g)" where
  "choice random_sample g a p =
     (if a = [] then Inl ValueError
      else if length p \<noteq> length a then Inl ValueError
      else if list_ex (\<lambda>x. x < 0) p then Inl ValueError
      else if \<bar>sum_list p - 1\<bar> > choice_atol then Inl ValueError
      else
        let cdf = cumsum p;
            cdf = map (\<lambda>c. c / last cdf) cdf;
            (u, g') = random_sample g;
            idx = searchsorted_right cdf u
        in if idx < length a then Inr (a ! idx, g') else Inl IndexError)"

text \<open>
  \<^verbatim>\<open>Agent.act(observation)\<close>: the logits of the one-observation batch, their softmax,
  and a draw from it over \<^verbatim>\<open>np.arange(self.action_number)\<close>.
\<close>

definition act ::
  "('p \<Rightarrow> 'o \<Rightarrow> real list) \<Rightarrow> ('g \<Rightarrow> real \<times> 'g) \<Rightarrow> 'p agent \<Rightarrow> 'g \<Rightarrow> 'o
     \<Rightarrow> error + (nat \<times> 'g)" where
  "act net random_sample ag g obs =
     (let policy = net (params ag) obs;
          policy = softmax policy
      in choice random_sample g [0..<action_number ag] policy)"

subsection \<open>Agent.train\<close>

text \<open>The discount factor, \<^verbatim>\<open>discount = 0.99\<close>.\<close>

definition discount :: real where
  "discount = 99 / 100"

text \<open>
  The discounting loop
  \<^verbatim>\<open>for i in reversed(range(len(r))): keep = keep * discount + r[i]; r[i] = keep\<close>
  over the indices it visits. It writes into the list \<open>r\<close> it reads.
\<close>

fun discount_loop :: "nat list \<Rightarrow> real \<Rightarrow> real list \<Rightarrow> real list" where
  "discount_loop [] keep r = r"
| "discount_loop (i # is) keep r =
     (let keep' = keep * discount + r ! i
      in discount_loop is keep' (r[i := keep']))"

definition discount_reward :: "real list \<Rightarrow> real list" where
  "discount_reward r = discount_loop (rev [0..<length r]) 0 r"

text \<open>
  The return-to-go in the specification's words, for comparison with the loop:
  \<open>G[i] = r[i] + \<gamma> r[i+1] + \<dots> + \<gamma>\<^bsup>T-1-i\<^esup> r[T-1]\<close>.
\<close>

definition return_to_go :: "real list \<Rightarrow> nat \<Rightarrow> real" where
  "return_to_go r i = (\<Sum>k = i..<length r. discount ^ (k - i) * r ! k)"

text \<open>\<^verbatim>\<open>r -= mx.nd.mean(r)\<close>.\<close>

definition subtract_baseline :: "real list \<Rightarrow> real list" where
  "subtract_baseline r = map (\<lambda>x. x - nd_mean r) r"

text \<open>
  The recorded forward pass, as a function of the network parameters \<open>\<theta>\<close>:
  \<^verbatim>\<open>output = self.net(s)\<close>, \<^verbatim>\<open>policy = softmax(output)\<close>, the clip, the logarithm, and
  \<^verbatim>\<open>loss = -mx.nd.sum(r * log_policy * a)\<close>. Here \<open>r\<close> has shape \<open>(n, 1)\<close> and is
  broadcast along each row; \<open>a\<close> is the batch of one-hot rows.
\<close>

definition loss_fn ::
  "('p \<Rightarrow> 'o \<Rightarrow> real list) \<Rightarrow> 'o list \<Rightarrow> real list list \<Rightarrow> real list \<Rightarrow> 'p \<Rightarrow> real" where
  "loss_fn net s a r \<theta> =
     (let output = map (net \<theta>) s;
          policy = map softmax output;
          policy = clip_policy policy;
          log_policy = map (map ln) policy;
          r_log_policy = map2 (\<lambda>ri row. map (\<lambda>l. ri * l) row) r log_policy;
          r_log_policy_a = map2 (map2 times) r_log_policy a
      in - sum_list (map sum_list r_log_policy_a))"

record ('o, 'p) train_result =
  episode_after :: "'o episode"
  agent_after :: "'p agent"
  loss :: real

text \<open>
  \<^verbatim>\<open>Agent.train(episode)\<close>. The local name \<open>r\<close> is bound to the list object
  \<^verbatim>\<open>episode.reward\<close> itself, so the discounting loop's writes \<^verbatim>\<open>r[i] = keep\<close> are writes
  to \<^verbatim>\<open>episode.reward\<close>: the episode the caller holds is returned as \<open>episode_after\<close>.
  After that \<^verbatim>\<open>r = mx.nd.array(r, ...)\<close> rebinds \<open>r\<close> to a new array, so the baseline
  subtraction does not reach the episode. \<open>s\<close> and \<open>a\<close> are rebound likewise before
  any write.

  \<^verbatim>\<open>loss.backward()\<close> and \<^verbatim>\<open>self.trainer.step(len(s))\<close> are the parameter
  \<open>trainer_step\<close>: from the recorded loss as a function of the parameters, the batch
  size and the current parameters to the new parameters. The method returns nothing;
  the model also returns the value of \<open>loss\<close>.

  The model covers episodes that are non-empty and aligned (the three lists of equal
  length), which is what \<open>run_episode\<close> produces. What the array library does on any
  other episode (zero-size arrays, broadcasting of unequal shapes) is not modelled:
  the result is \<open>Inl Unmodelled\<close>.
\<close>

definition train ::
  "('p \<Rightarrow> 'o \<Rightarrow> real list) \<Rightarrow> (('p \<Rightarrow> real) \<Rightarrow> nat \<Rightarrow> 'p \<Rightarrow> 'p) \<Rightarrow> 'p agent \<Rightarrow> 'o episode
     \<Rightarrow> error + ('o, 'p) train_result" where
  "train net trainer_step ag ep =
     (let s = observation ep;
          a = action ep;
          r = discount_reward (reward ep);
          ep = ep\<lparr>reward := r\<rparr>
      in if r = [] \<or> length s \<noteq> length r \<or> length a \<noteq> length r then Inl Unmodelled
         else
           let a = map (one_hot (action_number ag)) a;
               r = subtract_baseline r;
               recorded = loss_fn net s a r;
               \<theta> = trainer_step recorded (length s) (params ag)
           in Inr \<lparr>episode_after = ep, agent_after = ag\<lparr>params := \<theta>\<rparr>,
                   loss = recorded (params ag)\<rparr>)"

subsection \<open>run_episode\<close>

text \<open>
  \<^verbatim>\<open>run_episode(env, agent, render)\<close>. Environment and agent are the objects the caller
  passes in; the function only calls \<^verbatim>\<open>env.reset()\<close>, \<^verbatim>\<open>env.step(action)\<close>,
  \<^verbatim>\<open>env.render()\<close> and \<^verbatim>\<open>agent.act(observation)\<close>. They are the parameters \<open>reset\<close>,
  \<open>step\<close>, \<open>render_env\<close> and \<open>agent_act\<close>, each a total function on one state \<open>'w\<close>
  that holds whatever environment, agent and random source own (\<open>step\<close> drops the
  fourth component of gym's result, which the loop ignores). A collaborator that
  raises or does not return is outside the model.

  The loop state is \<open>(done, obs, w, ep)\<close>: the flag, the current observation, the
  collaborators' state and the episode so far.
\<close>

type_synonym ('w, 'o) loop_state = "bool \<times> 'o \<times> 'w \<times> 'o episode"

definition is_done :: "('w, 'o) loop_state \<Rightarrow> bool" where
  "is_done st = fst st"

definition episode_of :: "('w, 'o) loop_state \<Rightarrow> 'o episode" where
  "episode_of st = snd (snd (snd st))"

definition world_of :: "('w, 'o) loop_state \<Rightarrow> 'w" where
  "world_of st = fst (snd (snd st))"

text \<open>One pass through the body of \<^verbatim>\<open>while not done\<close>.\<close>

definition loop_body ::
  "('w \<Rightarrow> 'o \<Rightarrow> nat \<times> 'w) \<Rightarrow> ('w \<Rightarrow> nat \<Rightarrow> ('o \<times> real \<times> bool) \<times> 'w) \<Rightarrow> ('w \<Rightarrow> 'w) \<Rightarrow> bool
     \<Rightarrow> ('w, 'o) loop_state \<Rightarrow> ('w, 'o) loop_state" where
  "loop_body agent_act step render_env render st =
     (case st of (done, obs, w, ep) \<Rightarrow>
        let (a, w) = agent_act w obs;
            ((next_obs, r, done), w) = step w a;
            ep = Episode_append ep obs a r;
            obs = next_obs;
            w = (if render then render_env w else w)
        in (done, obs, w, ep))"

text \<open>
  The loop has no bound on the number of passes, so it is a partial function: \<open>None\<close>
  is a loop that never leaves.
\<close>

partial_function (option) run_episode_loop ::
  "('w \<Rightarrow> 'o \<Rightarrow> nat \<times> 'w) \<Rightarrow> ('w \<Rightarrow> nat \<Rightarrow> ('o \<times> real \<times> bool) \<times> 'w) \<Rightarrow> ('w \<Rightarrow> 'w) \<Rightarrow> bool
     \<Rightarrow> ('w, 'o) loop_state \<Rightarrow> ('o episode \<times> 'w) option" where
  "run_episode_loop agent_act step render_env render st =
     (if \<not> is_done st
      then run_episode_loop agent_act step render_env render
             (loop_body agent_act step render_env render st)
      else Some (episode_of st, world_of st))"

declare run_episode_loop.simps [code]

text \<open>The state at the loop's entry: a new episode, the observation of \<^verbatim>\<open>env.reset()\<close>, \<^verbatim>\<open>done = False\<close>.\<close>

definition initial_state :: "('w \<Rightarrow> 'o \<times> 'w) \<Rightarrow> 'w \<Rightarrow> ('w, 'o) loop_state" where
  "initial_state reset w =
     (let ep = Episode_init;
          (obs, w) = reset w;
          done = False
      in (done, obs, w, ep))"

definition run_episode ::
  "('w \<Rightarrow> 'o \<Rightarrow> nat \<times> 'w) \<Rightarrow> ('w \<Rightarrow> nat \<Rightarrow> ('o \<times> real \<times> bool) \<times> 'w) \<Rightarrow> ('w \<Rightarrow> 'o \<times> 'w)
     \<Rightarrow> ('w \<Rightarrow> 'w) \<Rightarrow> bool \<Rightarrow> 'w \<Rightarrow> ('o episode \<times> 'w) option" where
  "run_episode agent_act step reset render_env render w =
     run_episode_loop agent_act step render_env render (initial_state reset w)"

subsection \<open>The moving average of the training script\<close>

text \<open>
  \<^verbatim>\<open>if i == 0: mean_reward = reward\<close>
  \<^verbatim>\<open>else: mean_reward = 0.99 * mean_reward + 0.01 * reward\<close>
\<close>

definition update_mean_reward :: "nat \<Rightarrow> real \<Rightarrow> real \<Rightarrow> real" where
  "update_mean_reward i mean_reward reward_sum =
     (if i = 0 then reward_sum else 99 / 100 * mean_reward + 1 / 100 * reward_sum)"

text \<open>
  The training loop \<^verbatim>\<open>for i in range(n_episodes)\<close>, restricted to the variables
  \<open>mean_reward\<close> and \<open>reward_log\<close>. Its argument is the list of episodes that
  \<^verbatim>\<open>run_episode\<close> returns in passes \<open>i, i + 1, \<dots>\<close>, each as it is when
  \<^verbatim>\<open>reward = sum(episode.reward)\<close> runs, which is before \<^verbatim>\<open>agent.train(episode)\<close>.
\<close>

fun mean_reward_loop :: "nat \<Rightarrow> real \<Rightarrow> real list \<Rightarrow> 'o episode list \<Rightarrow> real \<times> real list" where
  "mean_reward_loop i mean_reward reward_log [] = (mean_reward, reward_log)"
| "mean_reward_loop i mean_reward reward_log (ep # eps) =
     (let reward_sum = sum_list (reward ep);
          mean_reward = update_mean_reward i mean_reward reward_sum;
          reward_log = reward_log @ [mean_reward]
      in mean_reward_loop (Suc i) mean_reward reward_log eps)"

text \<open>The script starts with \<^verbatim>\<open>mean_reward = 0\<close> and \<^verbatim>\<open>reward_log = []\<close>.\<close>

definition training_log :: "'o episode list \<Rightarrow> real \<times> real list" where
  "training_log eps = mean_reward_loop 0 0 [] eps"

subsection \<open>AtariPreprocessedEnv\<close>

text \<open>
  A raw frame is a \<^verbatim>\<open>uint8\<close> array of shape height x width x 3: rows of pixels, a pixel
  being its three channels.
\<close>

type_synonym pixel = "8 word \<times> 8 word \<times> 8 word"
type_synonym frame = "pixel list list"

text \<open>The wrapper's own state: the wrapped gym environment and \<^verbatim>\<open>self.pre_image\<close>.\<close>

record 'e atari_env =
  env :: 'e
  pre_image :: "real list option"

text \<open>The slice \<^verbatim>\<open>xs[::2]\<close>: the elements at even indices.\<close>

fun every_second :: "'a list \<Rightarrow> 'a list" where
  "every_second [] = []"
| "every_second [x] = [x]"
| "every_second (x # y # xs) = x # every_second xs"

text \<open>\<^verbatim>\<open>img[img == 144] = 0; img[img == 109] = 0; img[img != 0] = 1\<close>, on one element.\<close>

definition erase_background :: "8 word \<Rightarrow> 8 word" where
  "erase_background v =
     (let v = (if v = 144 then 0 else v);
          v = (if v = 109 then 0 else v);
          v = (if v \<noteq> 0 then 1 else v)
      in v)"

text \<open>
  The subtraction \<^verbatim>\<open>curr - self.pre_image\<close> of two one-dimensional numpy arrays: an
  array of length one is broadcast, any other unequal lengths raise \<^verbatim>\<open>ValueError\<close>.
\<close>

definition np_subtract :: "real list \<Rightarrow> real list \<Rightarrow> error + real list" where
  "np_subtract xs ys =
     (if length xs = length ys then Inr (map2 (-) xs ys)
      else if length xs = 1 then Inr (map (\<lambda>y. hd xs - y) ys)
      else if length ys = 1 then Inr (map (\<lambda>x. x - hd ys) xs)
      else Inl ValueError)"

text \<open>
  \<^verbatim>\<open>AtariPreprocessedEnv._preprocess(img)\<close>: rows 35 to 194, every second row and
  column, channel 0, background erased, flattened to floats; then the difference with
  the stored previous frame, or zeros when none is stored. The method stores \<open>curr\<close>
  before it returns.
\<close>

definition preprocess :: "'e atari_env \<Rightarrow> frame \<Rightarrow> error + (real list \<times> 'e atari_env)" where
  "preprocess self img =
     (let img = take (195 - 35) (drop 35 img);
          img = map (\<lambda>row. map fst (every_second row)) (every_second img);
          img = map (map erase_background) img;
          curr = map (\<lambda>v. real (unat v)) (concat img)
      in case (case pre_image self of
                 Some pre \<Rightarrow> np_subtract curr pre
               | None \<Rightarrow> Inr (map (\<lambda>_. 0) curr)) of
           Inl e \<Rightarrow> Inl e
         | Inr diff \<Rightarrow> Inr (diff, self\<lparr>pre_image := Some curr\<rparr>))"

text \<open>
  \<^verbatim>\<open>AtariPreprocessedEnv.reset()\<close>. The wrapped environment's \<^verbatim>\<open>reset\<close> is the parameter
  \<open>gym_reset\<close>.
\<close>

definition atari_reset ::
  "('e \<Rightarrow> frame \<times> 'e) \<Rightarrow> 'e atari_env \<Rightarrow> error + (real list \<times> 'e atari_env)" where
  "atari_reset gym_reset self =
     (let self = self\<lparr>pre_image := None\<rparr>;
          (img, e) = gym_reset (env self);
          self = self\<lparr>env := e\<rparr>
      in preprocess self img)"

section \<open>Example collaborators\<close>

text \<open>
  Concrete collaborators for the examples below: a network over two actions whose
  logits are always equal, a trainer step that leaves the parameters as they are, and
  an episode of two steps with rewards \<open>[1, 1]\<close>.
\<close>

definition uniform_net :: "unit \<Rightarrow> nat \<Rightarrow> real list" where
  "uniform_net \<theta> obs = [0, 0]"

definition no_update :: "(unit \<Rightarrow> real) \<Rightarrow> nat \<Rightarrow> unit \<Rightarrow> unit" where
  "no_update recorded batch_size \<theta> = \<theta>"

definition two_step_episode :: "nat episode" where
  "two_step_episode = \<lparr>observation = [0, 0], action = [0, 1], reward = [1, 1]\<rparr>"

text \<open>
  An environment that counts its steps and signals \<open>done\<close> at the second one, with
  reward 1 at every step, and an agent that always takes action 0.
\<close>

definition countdown_step :: "nat \<Rightarrow> nat \<Rightarrow> (nat \<times> real \<times> bool) \<times> nat" where
  "countdown_step w a = ((Suc w, 1, 2 \<le> Suc w), Suc w)"

definition first_action :: "nat \<Rightarrow> nat \<Rightarrow> nat \<times> nat" where
  "first_action w obs = (0, w)"

definition countdown_reset :: "nat \<Rightarrow> nat \<times> nat" where
  "countdown_reset w = (0, 0)"

text \<open>
  Three collected episodes with reward sums 100, 200 and 0; a wrapped environment
  whose \<open>reset\<close> returns a black frame of 210 rows and 160 columns.
\<close>

definition three_episodes :: "nat episode list" where
  "three_episodes =
     [\<lparr>observation = [0], action = [0], reward = [100]\<rparr>,
      \<lparr>observation = [0, 1], action = [0, 0], reward = [100, 100]\<rparr>,
      \<lparr>observation = [], action = [], reward = []\<rparr>]"

definition black_frame :: frame where
  "black_frame = replicate 210 (replicate 160 (0, 0, 0))"

definition still_reset :: "unit \<Rightarrow> frame \<times> unit" where
  "still_reset e = (black_frame, e)"

section \<open>Discounting\<close>

lemma return_to_go_step:
  assumes "m < length r"
  shows "return_to_go r (Suc m) * discount + r ! m = return_to_go r m"
proof -
  have "return_to_go r m = r ! m + (\<Sum>k = Suc m..<length r. discount ^ (k - m) * r ! k)"
    using assms by (simp add: return_to_go_def sum.atLeast_Suc_lessThan)
  also have "(\<Sum>k = Suc m..<length r. discount ^ (k - m) * r ! k)
      = (\<Sum>k = Suc m..<length r. discount * (discount ^ (k - Suc m) * r ! k))"
  proof (rule sum.cong)
    fix k assume "k \<in> {Suc m..<length r}"
    then have "k - m = Suc (k - Suc m)" by auto
    then show "discount ^ (k - m) * r ! k = discount * (discount ^ (k - Suc m) * r ! k)"
      by simp
  qed simp
  also have "\<dots> = discount * return_to_go r (Suc m)"
    by (simp add: return_to_go_def sum_distrib_left)
  finally show ?thesis by simp
qed

lemma discount_loop_length: "length (discount_loop is keep r) = length r"
  by (induction "is" arbitrary: keep r) (auto simp: Let_def)

text \<open>
  The loop's invariant when the indices below \<open>m\<close> are still to be visited: \<open>keep\<close> is the
  return-to-go from \<open>m\<close>, and the entries below \<open>m\<close> are the original rewards.
\<close>

lemma discount_loop_inv:
  assumes "m \<le> length r0" "length r = length r0" "\<forall>j<m. r ! j = r0 ! j"
    "keep = return_to_go r0 m" "j < length r0"
  shows "discount_loop (rev [0..<m]) keep r ! j = (if j < m then return_to_go r0 j else r ! j)"
  using assms
proof (induction m arbitrary: keep r)
  case 0
  then show ?case by simp
next
  case (Suc m)
  let ?k = "keep * discount + r ! m"
  have k: "?k = return_to_go r0 m"
    using Suc.prems return_to_go_step[of m r0] by simp
  have "discount_loop (rev [0..<Suc m]) keep r ! j = discount_loop (rev [0..<m]) ?k (r[m := ?k]) ! j"
    by (simp add: Let_def)
  also have "\<dots> = (if j < m then return_to_go r0 j else r[m := ?k] ! j)"
    using Suc.prems k by (intro Suc.IH) auto
  also have "\<dots> = (if j < Suc m then return_to_go r0 j else r ! j)"
    using Suc.prems k by (auto simp: less_Suc_eq)
  finally show ?case .
qed

lemma discount_reward_nth:
  "i < length r \<Longrightarrow> discount_reward r ! i = return_to_go r i"
  unfolding discount_reward_def
  by (subst discount_loop_inv[where ?r0.0 = r]) (auto simp: return_to_go_def)

lemma discount_reward_length: "length (discount_reward r) = length r"
  by (simp add: discount_reward_def discount_loop_length)

text \<open>
  C1. The reverse-accumulation loop of \<open>Agent.train\<close> keeps the length of the reward
  list and leaves at every index \<open>i\<close> the discounted return-to-go
  \<open>r[i] + 0.99 r[i+1] + \<dots> + 0.99\<^bsup>T-1-i\<^esup> r[T-1]\<close>; on the rewards \<open>[1, 1, 1]\<close> it
  leaves \<open>[2.9701, 1.99, 1]\<close>.
\<close>

theorem C1_discounted_return:
  "length (discount_reward r) = length r
   \<and> (\<forall>i<length r. discount_reward r ! i = (\<Sum>k = i..<length r. (99 / 100) ^ (k - i) * r ! k))
   \<and> discount_reward [1, 1, 1] = [29701 / 10000, 199 / 100, 1]"
proof (intro conjI allI impI)
  show "length (discount_reward r) = length r"
    by (rule discount_reward_length)
next
  fix i assume "i < length r"
  then have "discount_reward r ! i = return_to_go r i"
    by (rule discount_reward_nth)
  then show "discount_reward r ! i = (\<Sum>k = i..<length r. (99 / 100) ^ (k - i) * r ! k)"
    by (simp add: return_to_go_def discount_def)
next
  show "discount_reward [1, 1, 1] = [29701 / 10000, 199 / 100, 1]"
    by (simp add: discount_reward_def discount_def upt_rec Let_def)
qed

theorem C1_discounted_return_witness:
  "(1::nat) < length [5, 7, 11 :: real]
   \<and> discount_reward [5, 7, 11] ! 1 = 7 + 99 / 100 * 11"
proof -
  have "discount_reward [5, 7, 11] ! 1
      = (\<Sum>k = 1..<length [5, 7, 11 :: real]. (99 / 100) ^ (k - 1) * [5, 7, 11] ! k)"
    using C1_discounted_return [of "[5, 7, 11]"] by simp
  also have "\<dots> = 7 + 99 / 100 * 11"
    by (simp add: sum.atLeast_Suc_lessThan numeral_3_eq_3)
  finally show ?thesis by simp
qed

section \<open>Baseline subtraction\<close>

lemma sum_list_map_minus_const:
  "sum_list (map (\<lambda>x. x - (c::real)) xs) = sum_list xs - real (length xs) * c"
  by (induction xs) (auto simp: algebra_simps)

text \<open>
  C3. For every non-empty sequence of returns \<open>G\<close>, the sequence \<open>G - mean(G)\<close> that the
  baseline subtraction leaves has mean 0 (in exact arithmetic).
\<close>

theorem C3_baseline_zero_mean:
  "G \<noteq> [] \<Longrightarrow> nd_mean (subtract_baseline G) = 0"
proof -
  assume "G \<noteq> []"
  then have n: "real (length G) \<noteq> 0" by simp
  have "sum_list (subtract_baseline G) = sum_list G - real (length G) * nd_mean G"
    unfolding subtract_baseline_def by (rule sum_list_map_minus_const)
  also have "\<dots> = 0"
    using n by (simp add: nd_mean_def)
  finally show ?thesis
    by (simp add: nd_mean_def)
qed

theorem C3_baseline_zero_mean_witness:
  "[199 / 100, 1 :: real] \<noteq> [] \<and> nd_mean (subtract_baseline [199 / 100, 1]) = 0
   \<and> subtract_baseline [199 / 100, 1] = [99 / 200, - (99 / 200)]"
  using C3_baseline_zero_mean [of "[199 / 100, 1]"]
  by (simp add: subtract_baseline_def nd_mean_def)

section \<open>Clipping\<close>

text \<open>
  C9. The clip of a probability into \<open>[1e-6, 1 - 1e-6]\<close> is idempotent: for every \<open>x\<close>,
  clipping the clipped value changes nothing; so it is for a whole batch of rows.
\<close>

theorem C9_clip_idempotent:
  "clip (clip x (1 / 10 ^ 6) (1 - 1 / 10 ^ 6)) (1 / 10 ^ 6) (1 - 1 / 10 ^ 6)
     = clip x (1 / 10 ^ 6) (1 - 1 / 10 ^ 6)
   \<and> clip_policy (clip_policy policy) = clip_policy policy"
  by (simp add: clip_def clip_policy_def clip_prob_def o_def)

section \<open>Action sampling\<close>

lemma sum_list_exp_pos: "xs \<noteq> [] \<Longrightarrow> 0 < sum_list (map exp (xs :: real list))"
proof (induction xs)
  case Nil
  then show ?case by simp
next
  case (Cons x xs)
  have "0 < exp x" by simp
  moreover have "0 \<le> sum_list (map exp xs)"
    by (rule sum_list_nonneg) auto
  ultimately have "0 < exp x + sum_list (map exp xs)" by (rule add_pos_nonneg)
  then show ?case by simp
qed

lemma sum_list_map_divide:
  "sum_list (map (\<lambda>x. f x / (c::real)) xs) = sum_list (map f xs) / c"
  by (induction xs) (auto simp: add_divide_distrib)

lemma softmax_length: "length (softmax xs) = length xs"
  by (simp add: softmax_def)

lemma softmax_nonneg: "x \<in> set (softmax xs) \<Longrightarrow> 0 \<le> x"
proof -
  assume "x \<in> set (softmax xs)"
  then obtain y where y: "y \<in> set xs" "x = exp y / sum_list (map exp xs)"
    by (auto simp: softmax_def)
  then have "xs \<noteq> []" by auto
  then have "0 < sum_list (map exp xs)" by (rule sum_list_exp_pos)
  with y show ?thesis by simp
qed

lemma softmax_sum: "xs \<noteq> [] \<Longrightarrow> sum_list (softmax xs) = 1"
proof -
  assume "xs \<noteq> []"
  then have "0 < sum_list (map exp xs)" by (rule sum_list_exp_pos)
  moreover have "sum_list (softmax xs) = sum_list (map exp xs) / sum_list (map exp xs)"
    unfolding softmax_def by (rule sum_list_map_divide)
  ultimately show ?thesis by simp
qed

lemma cumsum_from_length: "length (cumsum_from acc xs) = length xs"
  by (induction xs arbitrary: acc) auto

lemma cumsum_from_last:
  "xs \<noteq> [] \<Longrightarrow> last (cumsum_from acc xs) = acc + sum_list xs"
proof (induction xs arbitrary: acc)
  case Nil
  then show ?case by simp
next
  case (Cons x xs)
  show ?case
  proof (cases xs)
    case Nil
    then show ?thesis by simp
  next
    case (Cons y ys)
    then have "xs \<noteq> []" by simp
    from Cons.IH[OF this, of "acc + x"] Cons show ?thesis by simp
  qed
qed

lemma searchsorted_right_less:
  assumes "cdf \<noteq> []" "u < last cdf"
  shows "searchsorted_right cdf u < length cdf"
proof -
  have "last cdf \<in> set cdf" using assms(1) by simp
  moreover have "\<not> last cdf \<le> u" using assms(2) by simp
  ultimately show ?thesis
    unfolding searchsorted_right_def by (rule length_filter_less)
qed

lemma choice_distribution:
  assumes p: "length p = n" "0 < n" "\<forall>x\<in>set p. 0 \<le> x" "sum_list p = 1"
    and u: "fst (random_sample g) < 1"
  shows "\<exists>i. choice random_sample g [0..<n] p = Inr (i, snd (random_sample g)) \<and> i < n"
proof -
  let ?cdf = "cumsum p"
  let ?cdf' = "map (\<lambda>c. c / last ?cdf) ?cdf"
  let ?idx = "searchsorted_right ?cdf' (fst (random_sample g))"
  have ne: "p \<noteq> []" using p by auto
  have last1: "last ?cdf = 1"
    using cumsum_from_last[OF ne, of 0] p by (simp add: cumsum_def)
  have len: "length ?cdf = n"
    using p(1) by (simp add: cumsum_def cumsum_from_length)
  then have cdf_ne: "?cdf \<noteq> []"
    using p(2) by auto
  have same: "?cdf' = ?cdf"
    unfolding last1 by simp
  have "searchsorted_right ?cdf (fst (random_sample g)) < length ?cdf"
    using cdf_ne u unfolding last1[symmetric] by (rule searchsorted_right_less)
  then have idx: "?idx < n"
    unfolding same len .
  have c1: "\<not> list_ex (\<lambda>x. x < 0) p"
    using p(3) by (auto simp: list_ex_iff not_less)
  have c2: "\<not> \<bar>sum_list p - 1\<bar> > choice_atol"
    unfolding p(4) by (simp add: choice_atol_def)
  have c3: "[0..<n] \<noteq> []" "length p = length [0..<n]"
    using p(1,2) by simp_all
  have "choice random_sample g [0..<n] p = Inr ([0..<n] ! ?idx, snd (random_sample g))"
    unfolding choice_def using c1 c2 c3 idx
    by (simp add: Let_def split_beta del: upt_conv_Nil upt_eq_Nil_conv)
  then show ?thesis
    using idx by simp
qed

text \<open>
  C6. For every observation and every parameter setting of a network that returns one
  logit per action (at least one action), the distribution \<open>Agent.act\<close> samples from, the
  softmax of the logits, has no negative entry and sums to 1, and the call returns an
  action index below \<open>action_number\<close>, whatever uniform sample below 1 the random source
  gives.
\<close>

theorem C6_act_distribution:
  assumes "length (net (params ag) obs) = action_number ag" "0 < action_number ag"
    and "fst (random_sample g) < 1"
  shows "(\<forall>x\<in>set (softmax (net (params ag) obs)). 0 \<le> x)
       \<and> sum_list (softmax (net (params ag) obs)) = 1
       \<and> (\<exists>a g'. act net random_sample ag g obs = Inr (a, g') \<and> a < action_number ag)"
proof -
  let ?p = "softmax (net (params ag) obs)"
  have ne: "net (params ag) obs \<noteq> []" using assms by auto
  have nonneg: "\<forall>x\<in>set ?p. 0 \<le> x" by (auto intro: softmax_nonneg)
  have one: "sum_list ?p = 1" using ne by (rule softmax_sum)
  have len: "length ?p = action_number ag" using assms by (simp add: softmax_length)
  from choice_distribution[of ?p "action_number ag" random_sample g] len assms(2) nonneg one assms(3)
  have "\<exists>a g'. act net random_sample ag g obs = Inr (a, g') \<and> a < action_number ag"
    by (auto simp: act_def Let_def)
  with nonneg one show ?thesis by blast
qed


theorem C6_act_distribution_witness:
  "length (uniform_net () (0::nat)) = 2 \<and> (3 / 4 :: real) < 1
   \<and> sum_list (softmax (uniform_net () (0::nat))) = 1
   \<and> (\<exists>a g'. act uniform_net (\<lambda>g::nat. (3 / 4, Suc g))
        \<lparr>action_number = 2, params = ()\<rparr> 0 (0::nat) = Inr (a, g') \<and> a < 2)"
  using C6_act_distribution [of uniform_net "\<lparr>action_number = 2, params = ()\<rparr>" "0::nat"
        "\<lambda>g::nat. (3 / 4, Suc g)" 0]
  by (simp add: uniform_net_def)

section \<open>The update\<close>

lemma train_Inr:
  assumes "reward ep \<noteq> []" "length (observation ep) = length (reward ep)"
    "length (action ep) = length (reward ep)"
  shows "train net trainer_step ag ep =
     Inr \<lparr>episode_after = ep\<lparr>reward := discount_reward (reward ep)\<rparr>,
          agent_after = ag\<lparr>params := trainer_step
             (loss_fn net (observation ep) (map (one_hot (action_number ag)) (action ep))
                (subtract_baseline (discount_reward (reward ep))))
             (length (observation ep)) (params ag)\<rparr>,
          loss = loss_fn net (observation ep) (map (one_hot (action_number ag)) (action ep))
                (subtract_baseline (discount_reward (reward ep))) (params ag)\<rparr>"
proof -
  have "discount_reward (reward ep) \<noteq> []"
    using assms(1) discount_reward_length[of "reward ep"] by (metis length_0_conv)
  then show ?thesis
    using assms by (simp add: train_def Let_def discount_reward_length)
qed

lemma train_episode_after:
  assumes "train net trainer_step ag ep = Inr res"
  shows "episode_after res = ep\<lparr>reward := discount_reward (reward ep)\<rparr>"
  using assms by (auto simp: train_def Let_def split: if_splits)

text \<open>
  C2, as the code has it. On every non-empty aligned episode \<open>Agent.train\<close> returns,
  leaves the episode's observations and actions as they are and keeps the length of
  its rewards, and it overwrites the rewards in place: after the call
  \<open>episode.reward[i]\<close> is the discounted return-to-go from step \<open>i\<close> (before baseline
  subtraction).
\<close>

theorem C2_train_episode_effect:
  assumes "reward ep \<noteq> []" "length (observation ep) = length (reward ep)"
    "length (action ep) = length (reward ep)"
  shows "\<exists>res. train net trainer_step ag ep = Inr res
       \<and> observation (episode_after res) = observation ep
       \<and> action (episode_after res) = action ep
       \<and> length (reward (episode_after res)) = length (reward ep)
       \<and> (\<forall>i<length (reward ep).
            reward (episode_after res) ! i
              = (\<Sum>k = i..<length (reward ep). (99 / 100) ^ (k - i) * reward ep ! k))"
proof -
  obtain res where res: "train net trainer_step ag ep = Inr res"
    using train_Inr [OF assms] by blast
  then have after: "episode_after res = ep\<lparr>reward := discount_reward (reward ep)\<rparr>"
    by (rule train_episode_after)
  have "discount_reward (reward ep) ! i
      = (\<Sum>k = i..<length (reward ep). (99 / 100) ^ (k - i) * reward ep ! k)"
    if "i < length (reward ep)" for i
    using discount_reward_nth[OF that] by (simp add: return_to_go_def discount_def)
  then have "observation (episode_after res) = observation ep
       \<and> action (episode_after res) = action ep
       \<and> length (reward (episode_after res)) = length (reward ep)
       \<and> (\<forall>i<length (reward ep).
            reward (episode_after res) ! i
              = (\<Sum>k = i..<length (reward ep). (99 / 100) ^ (k - i) * reward ep ! k))"
    unfolding after by (simp add: discount_reward_length)
  with res show ?thesis by blast
qed

theorem C2_train_episode_effect_witness:
  "reward two_step_episode \<noteq> []
   \<and> length (observation two_step_episode) = length (reward two_step_episode)
   \<and> length (action two_step_episode) = length (reward two_step_episode)
   \<and> (\<exists>res. train uniform_net no_update \<lparr>action_number = 2, params = ()\<rparr> two_step_episode = Inr res
     \<and> observation (episode_after res) = [0, 0]
     \<and> action (episode_after res) = [0, 1]
     \<and> length (reward (episode_after res)) = 2
     \<and> reward (episode_after res) ! 1 = 1)"
proof -
  have h: "reward two_step_episode \<noteq> []"
    "length (observation two_step_episode) = length (reward two_step_episode)"
    "length (action two_step_episode) = length (reward two_step_episode)"
    by (simp_all add: two_step_episode_def)
  show ?thesis
    using C2_train_episode_effect [OF h, of uniform_net no_update "\<lparr>action_number = 2, params = ()\<rparr>"]
    by (auto simp: two_step_episode_def)
qed

text \<open>
  C2, as stated, fails. On the two-step episode with rewards \<open>[1, 1]\<close> the update
  returns with the episode's rewards overwritten by \<open>[1.99, 1]\<close>.
\<close>

theorem C2_episode_reward_overwritten:
  "reward two_step_episode = [1, 1]
   \<and> train uniform_net no_update \<lparr>action_number = 2, params = ()\<rparr> two_step_episode
      = Inr \<lparr>episode_after = two_step_episode\<lparr>reward := [199 / 100, 1]\<rparr>,
             agent_after = \<lparr>action_number = 2, params = ()\<rparr>,
             loss = 0\<rparr>"
proof -
  have d: "discount_reward [1, 1] = [199 / 100, 1]"
    by (simp add: discount_reward_def discount_def upt_rec Let_def)
  have b: "subtract_baseline [199 / 100, 1] = [99 / 200, - (99 / 200)]"
    by (simp add: subtract_baseline_def nd_mean_def)
  have oh: "one_hot 2 0 = [1, 0]" "one_hot 2 (Suc 0) = [0, 1]"
    by (simp_all add: one_hot_def upt_rec)
  have sm: "softmax (uniform_net () obs) = [1 / 2, 1 / 2]" for obs
    by (simp add: uniform_net_def softmax_def)
  have cp: "clip_prob (1 / 2) = 1 / 2"
    by (simp add: clip_prob_def clip_def)
  have l: "loss_fn uniform_net [0, 0] [[1, 0], [0, 1]] [99 / 200, - (99 / 200)] () = 0"
    by (simp add: loss_fn_def sm clip_policy_def cp Let_def)
  have "train uniform_net no_update \<lparr>action_number = 2, params = ()\<rparr> two_step_episode
      = Inr \<lparr>episode_after = two_step_episode\<lparr>reward := [199 / 100, 1]\<rparr>,
             agent_after = \<lparr>action_number = 2, params = ()\<rparr>,
             loss = 0\<rparr>"
    unfolding train_def two_step_episode_def
    by (simp add: d b l oh Let_def no_update_def)
  then show ?thesis
    by (simp add: two_step_episode_def)
qed

lemma sum_list_map2_nth:
  "length xs = k \<Longrightarrow> length ys = k \<Longrightarrow>
   sum_list (map2 f xs ys) = (\<Sum>j<k. f (xs ! j) (ys ! j) :: real)"
  by (simp add: sum_list_sum_nth atLeast0LessThan)

lemma one_hot_length: "length (one_hot k a) = k"
  by (simp add: one_hot_def)

lemma one_hot_nth: "j < k \<Longrightarrow> one_hot k a ! j = (if j = a then 1 else 0)"
  by (simp add: one_hot_def)

lemma loss_fn_sum:
  assumes "length s = n" "length a = n" "length r = n"
    and "\<forall>obs\<in>set s. length (net \<theta> obs) = k"
  shows "loss_fn net s (map (one_hot k) a) r \<theta>
     = - (\<Sum>i<n. \<Sum>j<k. r ! i * ln (clip_prob (softmax (net \<theta> (s ! i)) ! j)) * one_hot k (a ! i) ! j)"
proof -
  let ?lp = "map (map ln) (clip_policy (map softmax (map (net \<theta>) s)))"
  let ?rl = "map2 (\<lambda>ri row. map (\<lambda>l. ri * l) row) r ?lp"
  let ?rla = "map2 (map2 times) ?rl (map (one_hot k) a)"
  have row: "sum_list (?rla ! i)
      = (\<Sum>j<k. r ! i * ln (clip_prob (softmax (net \<theta> (s ! i)) ! j)) * one_hot k (a ! i) ! j)"
    if i: "i < n" for i
  proof -
    have w: "length (net \<theta> (s ! i)) = k"
      using assms(1,4) i by auto
    have lp: "?lp ! i = map (\<lambda>p. ln (clip_prob p)) (softmax (net \<theta> (s ! i)))"
      using assms(1) i by (simp add: clip_policy_def)
    have rl: "?rl ! i = map (\<lambda>p. r ! i * ln (clip_prob p)) (softmax (net \<theta> (s ! i)))"
      using assms(1,3) i by (simp add: lp clip_policy_def)
    have "?rla ! i = map2 times (?rl ! i) (one_hot k (a ! i))"
      using assms(1,2,3) i by (simp add: clip_policy_def)
    also have "sum_list \<dots> = (\<Sum>j<k. (?rl ! i) ! j * one_hot k (a ! i) ! j)"
    proof (rule sum_list_map2_nth)
      show "length (?rl ! i) = k"
        unfolding rl by (simp add: softmax_length w)
      show "length (one_hot k (a ! i)) = k"
        by (rule one_hot_length)
    qed
    also have "\<dots> = (\<Sum>j<k. r ! i * ln (clip_prob (softmax (net \<theta> (s ! i)) ! j)) * one_hot k (a ! i) ! j)"
      unfolding rl by (rule sum.cong) (simp_all add: softmax_length w)
    finally show ?thesis .
  qed
  have len: "length ?rla = n"
    using assms(1,2,3) by (simp add: clip_policy_def)
  have "sum_list (map sum_list ?rla) = (\<Sum>i<n. sum_list (?rla ! i))"
    using len by (simp add: sum_list_sum_nth atLeast0LessThan)
  also have "\<dots> = (\<Sum>i<n. \<Sum>j<k. r ! i * ln (clip_prob (softmax (net \<theta> (s ! i)) ! j)) * one_hot k (a ! i) ! j)"
  proof (rule sum.cong [OF refl])
    fix i assume "i \<in> {..<n}"
    then have "i < n" by simp
    then show "sum_list (?rla ! i)
        = (\<Sum>j<k. r ! i * ln (clip_prob (softmax (net \<theta> (s ! i)) ! j)) * one_hot k (a ! i) ! j)"
      by (rule row)
  qed
  finally show ?thesis
    by (simp add: loss_fn_def Let_def)
qed

lemma one_hot_select:
  assumes "a < k"
  shows "(\<Sum>j<k. f j * one_hot k a ! j) = (f a :: real)"
proof -
  have "(\<Sum>j<k. f j * one_hot k a ! j) = (\<Sum>j\<in>{..<k}. if j = a then f j else 0)"
    by (rule sum.cong) (simp_all add: one_hot_nth)
  also have "\<dots> = f a"
    using assms by (simp add: sum.delta)
  finally show ?thesis .
qed

text \<open>
  C5. For every non-empty aligned episode and a network that returns one logit per
  action, \<open>Agent.train\<close> computes as its loss the negated sum, over all steps \<open>i\<close> and
  actions \<open>j\<close>, of \<open>G[i] * log(clip(softmax(logits(s[i]))[j], 1e-6, 1 - 1e-6)) * onehot(a[i])[j]\<close>,
  where \<open>G\<close> is the baseline-subtracted return; when every recorded action is below
  \<open>action_number\<close>, that is minus the sum of the return-weighted clipped log-probabilities
  of the actions taken.
\<close>

theorem C5_loss:
  assumes "reward ep \<noteq> []" "length (observation ep) = length (reward ep)"
    "length (action ep) = length (reward ep)"
    and "\<forall>obs\<in>set (observation ep). length (net (params ag) obs) = action_number ag"
  shows "let G = subtract_baseline (discount_reward (reward ep));
             n = length (reward ep)
         in \<exists>res. train net trainer_step ag ep = Inr res
           \<and> loss res = - (\<Sum>i<n. \<Sum>j<action_number ag.
                 G ! i
                 * ln (clip (softmax (net (params ag) (observation ep ! i)) ! j) (1 / 10 ^ 6) (1 - 1 / 10 ^ 6))
                 * one_hot (action_number ag) (action ep ! i) ! j)
           \<and> ((\<forall>a\<in>set (action ep). a < action_number ag) \<longrightarrow>
                loss res = - (\<Sum>i<n.
                  G ! i
                  * ln (clip (softmax (net (params ag) (observation ep ! i)) ! (action ep ! i))
                         (1 / 10 ^ 6) (1 - 1 / 10 ^ 6))))"
proof -
  let ?G = "subtract_baseline (discount_reward (reward ep))"
  let ?n = "length (reward ep)"
  let ?k = "action_number ag"
  let ?L = "loss_fn net (observation ep) (map (one_hot ?k) (action ep)) ?G (params ag)"
  let ?t = "\<lambda>i j. ?G ! i * ln (clip_prob (softmax (net (params ag) (observation ep ! i)) ! j))"
  have G: "length ?G = ?n"
    by (simp add: subtract_baseline_def discount_reward_length)
  have double: "?L = - (\<Sum>i<?n. \<Sum>j<?k. ?t i j * one_hot ?k (action ep ! i) ! j)"
    using assms(2,3) G assms(4) by (rule loss_fn_sum)
  have single: "?L = - (\<Sum>i<?n. ?t i (action ep ! i))"
    if "\<forall>a\<in>set (action ep). a < ?k"
  proof -
    have "(\<Sum>j<?k. ?t i j * one_hot ?k (action ep ! i) ! j) = ?t i (action ep ! i)"
      if "i < ?n" for i
    proof -
      have "action ep ! i < ?k"
        using \<open>\<forall>a\<in>set (action ep). a < ?k\<close> that assms(3) by simp
      then show ?thesis by (rule one_hot_select)
    qed
    then show ?thesis
      unfolding double by simp
  qed
  have "train net trainer_step ag ep = Inr \<lparr>episode_after = ep\<lparr>reward := discount_reward (reward ep)\<rparr>,
          agent_after = ag\<lparr>params := trainer_step
             (loss_fn net (observation ep) (map (one_hot ?k) (action ep)) ?G)
             (length (observation ep)) (params ag)\<rparr>,
          loss = ?L\<rparr>"
    using assms(1,2,3) by (rule train_Inr)
  then show ?thesis
    using double single unfolding Let_def clip_prob_def by auto
qed

theorem C5_loss_witness:
  "reward two_step_episode \<noteq> []
   \<and> length (observation two_step_episode) = length (reward two_step_episode)
   \<and> length (action two_step_episode) = length (reward two_step_episode)
   \<and> (\<exists>res. train uniform_net no_update \<lparr>action_number = 2, params = ()\<rparr> two_step_episode = Inr res
        \<and> loss res = 0)"
proof -
  let ?ag = "\<lparr>action_number = 2, params = ()\<rparr>"
  have h1: "reward two_step_episode \<noteq> []"
    and h2: "length (observation two_step_episode) = length (reward two_step_episode)"
    and h3: "length (action two_step_episode) = length (reward two_step_episode)"
    and h4: "\<forall>obs\<in>set (observation two_step_episode).
               length (uniform_net (params ?ag) obs) = action_number ?ag"
    by (simp_all add: two_step_episode_def uniform_net_def)
  have G: "subtract_baseline (discount_reward (reward two_step_episode)) = [99 / 200, - (99 / 200)]"
    by (simp add: two_step_episode_def discount_reward_def discount_def upt_rec Let_def
        subtract_baseline_def nd_mean_def)
  have acts: "\<forall>a\<in>set (action two_step_episode). a < action_number ?ag"
    by (simp add: two_step_episode_def)
  from C5_loss [of two_step_episode uniform_net ?ag no_update] h1 h2 h3 h4 acts obtain res where
    res: "train uniform_net no_update ?ag two_step_episode = Inr res"
    and l: "loss res = - (\<Sum>i<length (reward two_step_episode).
        subtract_baseline (discount_reward (reward two_step_episode)) ! i
        * ln (clip (softmax (uniform_net (params ?ag) (observation two_step_episode ! i))
                      ! (action two_step_episode ! i)) (1 / 10 ^ 6) (1 - 1 / 10 ^ 6)))"
    unfolding Let_def by blast
  have "loss res = 0"
    unfolding l G
    by (simp add: two_step_episode_def uniform_net_def softmax_def clip_def lessThan_Suc numeral_2_eq_2)
  with res h1 h2 h3 show ?thesis by blast
qed

section \<open>Collecting an episode\<close>

text \<open>
  \<open>(loop_body \<dots> ^^ n) (initial_state reset w)\<close> is the loop state after \<open>n\<close> passes
  through the body; for \<open>n > 0\<close> its flag is the \<open>done\<close> that the \<open>n\<close>-th call of
  \<open>env.step\<close> returned.
\<close>

lemma run_episode_loop_done:
  "is_done st \<Longrightarrow>
   run_episode_loop agent_act step render_env render st = Some (episode_of st, world_of st)"
  by (subst run_episode_loop.simps) simp

lemma run_episode_loop_pass:
  "\<not> is_done st \<Longrightarrow>
   run_episode_loop agent_act step render_env render st
     = run_episode_loop agent_act step render_env render
         (loop_body agent_act step render_env render st)"
  by (subst run_episode_loop.simps) simp

lemma run_episode_loop_first_done:
  assumes "is_done ((loop_body agent_act step render_env render ^^ n) st)"
    and "\<forall>m<n. \<not> is_done ((loop_body agent_act step render_env render ^^ m) st)"
  shows "run_episode_loop agent_act step render_env render st
     = Some (episode_of ((loop_body agent_act step render_env render ^^ n) st),
             world_of ((loop_body agent_act step render_env render ^^ n) st))"
  using assms
proof (induction n arbitrary: st)
  case 0
  then show ?case by (simp add: run_episode_loop_done)
next
  case (Suc n)
  let ?body = "loop_body agent_act step render_env render"
  have nd: "\<not> is_done st"
    using Suc.prems(2) by (metis funpow_0 zero_less_Suc)
  have d: "is_done ((?body ^^ n) (?body st))"
    using Suc.prems(1) by (simp add: funpow_swap1)
  have e: "\<forall>m<n. \<not> is_done ((?body ^^ m) (?body st))"
  proof (intro allI impI)
    fix m assume "m < n"
    then have "\<not> is_done ((?body ^^ Suc m) st)"
      using Suc.prems(2) by (metis Suc_less_eq)
    then show "\<not> is_done ((?body ^^ m) (?body st))"
      by (simp add: funpow_swap1)
  qed
  have "run_episode_loop agent_act step render_env render st
      = run_episode_loop agent_act step render_env render (?body st)"
    using nd by (rule run_episode_loop_pass)
  also have "\<dots> = Some (episode_of ((?body ^^ n) (?body st)), world_of ((?body ^^ n) (?body st)))"
    using d e by (rule Suc.IH)
  finally show ?case by (simp add: funpow_swap1)
qed

lemma run_episode_loop_Some:
  assumes "run_episode_loop agent_act step render_env render st = Some y"
  shows "\<exists>n. is_done ((loop_body agent_act step render_env render ^^ n) st)"
proof (rule run_episode_loop.raw_induct
    [where P = "\<lambda>A S R r st y. \<exists>n. is_done ((loop_body A S R r ^^ n) st)", OF _ assms],
    goal_cases)
  case (1 f A S R r st y)
  let ?body = "loop_body A S R r"
  show ?case
  proof (cases "is_done st")
    case True
    then have "is_done ((?body ^^ 0) st)" by simp
    then show ?thesis by blast
  next
    case False
    with 1(2) have "f A S R r (?body st) = Some y" by simp
    then obtain n where "is_done ((?body ^^ n) (?body st))"
      using 1(1) by blast
    then have "is_done ((?body ^^ Suc n) st)" by (simp add: funpow_swap1)
    then show ?thesis by blast
  qed
qed

lemma first_done_ex:
  assumes "is_done ((body ^^ n) st)"
  shows "\<exists>k\<le>n. is_done ((body ^^ k) st) \<and> (\<forall>m<k. \<not> is_done ((body ^^ m) st))"
proof -
  let ?k = "LEAST k. is_done ((body ^^ k) st)"
  have "is_done ((body ^^ ?k) st)" using assms by (rule LeastI)
  moreover have "?k \<le> n" using assms by (rule Least_le)
  moreover have "\<forall>m<?k. \<not> is_done ((body ^^ m) st)"
    using not_less_Least by blast
  ultimately show ?thesis by blast
qed

lemma loop_body_episode:
  "length (observation (episode_of (loop_body agent_act step render_env render st)))
     = Suc (length (observation (episode_of st)))
   \<and> length (action (episode_of (loop_body agent_act step render_env render st)))
     = Suc (length (action (episode_of st)))
   \<and> length (reward (episode_of (loop_body agent_act step render_env render st)))
     = Suc (length (reward (episode_of st)))"
  by (simp add: loop_body_def episode_of_def Episode_append_def split_beta Let_def)

lemma loop_body_funpow_episode:
  "length (observation (episode_of ((loop_body agent_act step render_env render ^^ n) st)))
     = length (observation (episode_of st)) + n
   \<and> length (action (episode_of ((loop_body agent_act step render_env render ^^ n) st)))
     = length (action (episode_of st)) + n
   \<and> length (reward (episode_of ((loop_body agent_act step render_env render ^^ n) st)))
     = length (reward (episode_of st)) + n"
  by (induction n) (simp_all add: loop_body_episode)

lemma initial_state_props:
  "\<not> is_done (initial_state reset w)"
  "episode_of (initial_state reset w) = Episode_init"
  by (simp_all add: initial_state_def is_done_def episode_of_def split_beta Let_def)

lemma run_episode_first_done:
  assumes "is_done ((loop_body agent_act step render_env render ^^ n) (initial_state reset w))"
    and "\<forall>m<n. \<not> is_done ((loop_body agent_act step render_env render ^^ m) (initial_state reset w))"
  shows "\<exists>ep w'. run_episode agent_act step reset render_env render w = Some (ep, w')
      \<and> length (observation ep) = n \<and> length (action ep) = n \<and> length (reward ep) = n
      \<and> 0 < n"
proof -
  let ?body = "loop_body agent_act step render_env render"
  let ?s0 = "initial_state reset w"
  have "run_episode agent_act step reset render_env render w
      = Some (episode_of ((?body ^^ n) ?s0), world_of ((?body ^^ n) ?s0))"
    unfolding run_episode_def using assms by (rule run_episode_loop_first_done)
  moreover have "0 < n"
    using assms(1) initial_state_props(1)[where reset = reset and w = w] by (cases n) auto
  ultimately show ?thesis
    using loop_body_funpow_episode[where agent_act = agent_act and step = step
        and render_env = render_env and render = render and n = n and st = ?s0]
    by (simp add: initial_state_props Episode_init_def)
qed

lemma countdown_states:
  "\<not> is_done ((loop_body first_action countdown_step id False ^^ 0) (initial_state countdown_reset w))"
  "\<not> is_done ((loop_body first_action countdown_step id False ^^ 1) (initial_state countdown_reset w))"
  "is_done ((loop_body first_action countdown_step id False ^^ 2) (initial_state countdown_reset w))"
  by (simp_all add: numeral_2_eq_2 initial_state_def is_done_def loop_body_def
      first_action_def countdown_step_def countdown_reset_def)

text \<open>
  C4. With an environment whose \<open>step\<close> at some pass signals \<open>done\<close>, \<open>run_episode\<close>
  returns an episode, and in it observations, actions and rewards have the same length,
  which is at least 1.
\<close>

theorem C4_episode_aligned_nonempty:
  assumes "\<exists>n. is_done ((loop_body agent_act step render_env render ^^ n) (initial_state reset w))"
  shows "\<exists>ep w'. run_episode agent_act step reset render_env render w = Some (ep, w')
      \<and> length (observation ep) = length (action ep)
      \<and> length (action ep) = length (reward ep)
      \<and> 1 \<le> length (reward ep)"
proof -
  let ?body = "loop_body agent_act step render_env render"
  let ?s0 = "initial_state reset w"
  from assms obtain n where "is_done ((?body ^^ n) ?s0)" by blast
  from first_done_ex[OF this] obtain k where
    "is_done ((?body ^^ k) ?s0)" "\<forall>m<k. \<not> is_done ((?body ^^ m) ?s0)" by blast
  from run_episode_first_done[OF this] show ?thesis
    by (metis One_nat_def Suc_leI)
qed

theorem C4_episode_aligned_nonempty_witness:
  "is_done ((loop_body first_action countdown_step id False ^^ 2) (initial_state countdown_reset 7))
   \<and> (\<exists>ep w'. run_episode first_action countdown_step countdown_reset id False 7 = Some (ep, w')
      \<and> length (observation ep) = length (action ep)
      \<and> length (action ep) = length (reward ep)
      \<and> 1 \<le> length (reward ep))"
proof -
  have d: "is_done ((loop_body first_action countdown_step id False ^^ 2) (initial_state countdown_reset 7))"
    by (rule countdown_states)
  then have "\<exists>n. is_done ((loop_body first_action countdown_step id False ^^ n) (initial_state countdown_reset 7))"
    by blast
  from C4_episode_aligned_nonempty [OF this] d show ?thesis by blast
qed

text \<open>
  C7. \<open>run_episode\<close> returns exactly when the environment's \<open>step\<close> at some pass
  signals \<open>done\<close>; there is no cap on the number of passes, so with an environment that
  never signals \<open>done\<close> the loop does not return; and when the first \<open>done\<close> comes at
  pass \<open>n\<close>, the returned episode holds exactly \<open>n\<close> transitions.
\<close>

theorem C7_run_episode_terminates_iff_done:
  "(run_episode agent_act step reset render_env render w \<noteq> None)
     = (\<exists>n. is_done ((loop_body agent_act step render_env render ^^ n) (initial_state reset w)))
   \<and> (\<forall>n. is_done ((loop_body agent_act step render_env render ^^ n) (initial_state reset w))
          \<and> (\<forall>m<n. \<not> is_done ((loop_body agent_act step render_env render ^^ m) (initial_state reset w)))
        \<longrightarrow> (\<exists>ep w'. run_episode agent_act step reset render_env render w = Some (ep, w')
              \<and> length (observation ep) = n \<and> length (action ep) = n \<and> length (reward ep) = n))"
proof (intro conjI allI impI)
  let ?body = "loop_body agent_act step render_env render"
  let ?s0 = "initial_state reset w"
  show "(run_episode agent_act step reset render_env render w \<noteq> None) = (\<exists>n. is_done ((?body ^^ n) ?s0))"
  proof
    assume "run_episode agent_act step reset render_env render w \<noteq> None"
    then obtain y where "run_episode_loop agent_act step render_env render ?s0 = Some y"
      by (auto simp: run_episode_def)
    then show "\<exists>n. is_done ((?body ^^ n) ?s0)"
      by (rule run_episode_loop_Some)
  next
    assume "\<exists>n. is_done ((?body ^^ n) ?s0)"
    then obtain n where "is_done ((?body ^^ n) ?s0)" by blast
    from first_done_ex[OF this] obtain k where
      "is_done ((?body ^^ k) ?s0)" "\<forall>m<k. \<not> is_done ((?body ^^ m) ?s0)" by blast
    from run_episode_first_done[OF this]
    show "run_episode agent_act step reset render_env render w \<noteq> None" by auto
  qed
next
  fix n
  assume "is_done ((loop_body agent_act step render_env render ^^ n) (initial_state reset w))
          \<and> (\<forall>m<n. \<not> is_done ((loop_body agent_act step render_env render ^^ m) (initial_state reset w)))"
  then have a: "is_done ((loop_body agent_act step render_env render ^^ n) (initial_state reset w))"
    and b: "\<forall>m<n. \<not> is_done ((loop_body agent_act step render_env render ^^ m) (initial_state reset w))"
    by blast+
  from run_episode_first_done[OF a b]
  show "\<exists>ep w'. run_episode agent_act step reset render_env render w = Some (ep, w')
              \<and> length (observation ep) = n \<and> length (action ep) = n \<and> length (reward ep) = n"
    by blast
qed

theorem C7_run_episode_terminates_iff_done_witness:
  "is_done ((loop_body first_action countdown_step id False ^^ 2) (initial_state countdown_reset 7))
   \<and> \<not> is_done ((loop_body first_action countdown_step id False ^^ 1) (initial_state countdown_reset 7))
   \<and> \<not> is_done ((loop_body first_action countdown_step id False ^^ 0) (initial_state countdown_reset 7))
   \<and> run_episode first_action countdown_step countdown_reset id False 7
       = Some (\<lparr>observation = [0, 1], action = [0, 0], reward = [1, 1]\<rparr>, 2)
   \<and> (\<exists>ep w'. run_episode first_action countdown_step countdown_reset id False 7 = Some (ep, w')
        \<and> length (observation ep) = 2 \<and> length (action ep) = 2 \<and> length (reward ep) = 2)"
proof -
  have less2: "\<forall>m<2. \<not> is_done ((loop_body first_action countdown_step id False ^^ m) (initial_state countdown_reset 7))"
  proof (intro allI impI)
    fix m :: nat assume "m < 2"
    then have "m = 0 \<or> m = 1" by auto
    then show "\<not> is_done ((loop_body first_action countdown_step id False ^^ m) (initial_state countdown_reset 7))"
      using countdown_states(1,2) by auto
  qed
  have run: "run_episode first_action countdown_step countdown_reset id False 7
       = Some (\<lparr>observation = [0, 1], action = [0, 0], reward = [1, 1]\<rparr>, 2)"
    by (simp add: run_episode_def initial_state_def run_episode_loop.simps is_done_def loop_body_def
      first_action_def countdown_step_def countdown_reset_def Episode_init_def Episode_append_def
      episode_of_def world_of_def)
  from C7_run_episode_terminates_iff_done [where agent_act = first_action and step = countdown_step
      and reset = countdown_reset and render_env = id and render = False and w = 7]
    countdown_states[where w = 7] less2 run
  show ?thesis by simp
qed

section \<open>The moving average\<close>

lemma mean_reward_loop_snoc:
  "mean_reward_loop i m lg (eps @ [e]) =
     (let m' = update_mean_reward (i + length eps) (fst (mean_reward_loop i m lg eps)) (sum_list (reward e))
      in (m', snd (mean_reward_loop i m lg eps) @ [m']))"
  by (induction eps arbitrary: i m lg) (simp_all add: Let_def)

lemma training_log_snoc:
  "training_log (eps @ [e]) =
     (let m' = update_mean_reward (length eps) (fst (training_log eps)) (sum_list (reward e))
      in (m', snd (training_log eps) @ [m']))"
  unfolding training_log_def by (simp add: mean_reward_loop_snoc)

lemma training_log_inv:
  "length (snd (training_log eps)) = length eps
   \<and> (eps \<noteq> [] \<longrightarrow> snd (training_log eps) ! 0 = sum_list (reward (eps ! 0))
         \<and> fst (training_log eps) = last (snd (training_log eps)))
   \<and> (\<forall>i. 0 < i \<and> i < length eps \<longrightarrow>
         snd (training_log eps) ! i
           = 99 / 100 * snd (training_log eps) ! (i - 1) + 1 / 100 * sum_list (reward (eps ! i)))"
proof (induction eps rule: rev_induct)
  case Nil
  show ?case by (simp add: training_log_def)
next
  case (snoc e eps)
  let ?lg = "snd (training_log eps)"
  let ?m = "update_mean_reward (length eps) (fst (training_log eps)) (sum_list (reward e))"
  have tl: "training_log (eps @ [e]) = (?m, ?lg @ [?m])"
    by (simp add: training_log_snoc Let_def)
  have len: "length ?lg = length eps"
    using snoc.IH by blast
  show ?case
  proof (intro conjI impI allI)
    show "length (snd (training_log (eps @ [e]))) = length (eps @ [e])"
      by (simp add: tl len)
  next
    show "snd (training_log (eps @ [e])) ! 0 = sum_list (reward ((eps @ [e]) ! 0))"
    proof (cases "eps = []")
      case True
      then have "?lg = []" using len by simp
      then show ?thesis
        unfolding tl using True by (simp add: update_mean_reward_def)
    next
      case False
      then have "?lg ! 0 = sum_list (reward (eps ! 0))" "0 < length eps"
        using snoc.IH by auto
      then show ?thesis
        using len by (simp add: tl nth_append)
    qed
  next
    show "fst (training_log (eps @ [e])) = last (snd (training_log (eps @ [e])))"
      by (simp add: tl)
  next
    fix i assume i: "0 < i \<and> i < length (eps @ [e])"
    show "snd (training_log (eps @ [e])) ! i
        = 99 / 100 * snd (training_log (eps @ [e])) ! (i - 1)
          + 1 / 100 * sum_list (reward ((eps @ [e]) ! i))"
    proof (cases "i < length eps")
      case True
      then have "?lg ! i = 99 / 100 * ?lg ! (i - 1) + 1 / 100 * sum_list (reward (eps ! i))"
        using snoc.IH i by blast
      moreover have "i - 1 < length eps" using True by simp
      ultimately show ?thesis
        using True len by (simp add: tl nth_append)
    next
      case False
      then have ie: "i = length eps" using i by simp
      then have ne: "eps \<noteq> []" using i by auto
      then have "fst (training_log eps) = last ?lg"
        using snoc.IH by blast
      also have "\<dots> = ?lg ! (length eps - 1)"
        using ne len by (metis last_conv_nth length_0_conv)
      finally have prev: "fst (training_log eps) = ?lg ! (i - 1)"
        using ie by simp
      have "?m = 99 / 100 * fst (training_log eps) + 1 / 100 * sum_list (reward e)"
        using ne by (simp add: update_mean_reward_def)
      then show ?thesis
        using ie len ne prev by (simp add: tl nth_append)
    qed
  qed
qed

text \<open>
  C8. The logged moving average has one entry per episode; entry 0 is the reward sum
  of episode 0, and for every \<open>i \<ge> 1\<close> entry \<open>i\<close> is
  \<open>0.99 * entry (i - 1) + 0.01 * reward\<^sub>i\<close>, where \<open>reward\<^sub>i\<close> is the sum of the rewards of
  episode \<open>i\<close>; the variable \<open>mean_reward\<close> ends as the last entry.
\<close>

theorem C8_moving_average:
  "length (snd (training_log eps)) = length eps
   \<and> (eps \<noteq> [] \<longrightarrow> snd (training_log eps) ! 0 = sum_list (reward (eps ! 0)))
   \<and> (\<forall>i. 1 \<le> i \<and> i < length eps \<longrightarrow>
         snd (training_log eps) ! i
           = 99 / 100 * snd (training_log eps) ! (i - 1) + 1 / 100 * sum_list (reward (eps ! i)))
   \<and> (eps \<noteq> [] \<longrightarrow> fst (training_log eps) = last (snd (training_log eps)))"
  using training_log_inv[of eps] by (simp add: Suc_le_eq)

theorem C8_moving_average_witness:
  "three_episodes \<noteq> [] \<and> (1::nat) \<le> 1 \<and> 1 < length three_episodes
   \<and> snd (training_log three_episodes) ! 0 = 100
   \<and> snd (training_log three_episodes) ! 1
       = 99 / 100 * snd (training_log three_episodes) ! 0 + 1 / 100 * 200
   \<and> training_log three_episodes = (9999 / 100, [100, 101, 9999 / 100])"
proof -
  have "training_log three_episodes = (9999 / 100, [100, 101, 9999 / 100])"
    by (simp add: training_log_def three_episodes_def update_mean_reward_def Let_def)
  then show ?thesis
    using C8_moving_average [of three_episodes]
    by (simp add: three_episodes_def)
qed

section \<open>The Atari wrapper\<close>

lemma every_second_length: "length (every_second xs) = (length xs + 1) div 2"
  by (induction xs rule: every_second.induct) simp_all

lemma every_second_subset: "set (every_second xs) \<subseteq> set xs"
  by (induction xs rule: every_second.induct) auto

lemma length_concat_const:
  "\<forall>row\<in>set xss. length row = c \<Longrightarrow> length (concat xss) = length xss * c"
  by (induction xss) simp_all

lemma preprocess_no_previous:
  assumes "pre_image self = None"
  shows "\<exists>self'. preprocess self img
        = Inr (replicate (length (concat (map every_second (every_second (take 160 (drop 35 img)))))) 0,
               self')
      \<and> pre_image self' \<noteq> None"
  using assms by (simp add: preprocess_def Let_def map_replicate_const length_concat o_def)

lemma cropped_length:
  assumes "length img = 210" "\<forall>row\<in>set img. length row = 160"
  shows "length (concat (map every_second (every_second (take 160 (drop 35 img))))) = 6400"
proof -
  let ?rows = "every_second (take 160 (drop 35 img))"
  have n: "length ?rows = 80"
    using assms(1) by (simp add: every_second_length)
  have "set ?rows \<subseteq> set img"
    using every_second_subset[of "take 160 (drop 35 img)"] set_take_subset[of 160 "drop 35 img"]
      set_drop_subset[of 35 img] by blast
  then have "\<forall>row\<in>set (map every_second ?rows). length row = 80"
    using assms(2) by (auto simp: every_second_length)
  then have "length (concat (map every_second ?rows)) = length (map every_second ?rows) * 80"
    by (rule length_concat_const)
  then show ?thesis using n by simp
qed

text \<open>
  C10. \<open>AtariPreprocessedEnv.reset()\<close> clears the stored previous frame, so
  \<open>_preprocess\<close> takes its branch for no previous frame: the observation returned is
  all zeros, whatever was stored before and whatever the frame shows, and a frame is
  stored afterwards. For a raw frame of 210 rows and 160 columns it is the zero vector
  of length 6400.
\<close>

theorem C10_reset_observation_zero:
  "(\<exists>obs self'. atari_reset gym_reset self = Inr (obs, self')
       \<and> (\<forall>x\<in>set obs. x = 0) \<and> pre_image self' \<noteq> None)
   \<and> (length (fst (gym_reset (env self))) = 210
        \<and> (\<forall>row\<in>set (fst (gym_reset (env self))). length row = 160)
      \<longrightarrow> (\<exists>self'. atari_reset gym_reset self = Inr (replicate 6400 0, self')))"
proof -
  let ?img = "fst (gym_reset (env self))"
  let ?self = "self\<lparr>pre_image := None, env := snd (gym_reset (env self))\<rparr>"
  have r: "atari_reset gym_reset self = preprocess ?self ?img"
    by (simp add: atari_reset_def Let_def split_beta)
  have "pre_image ?self = None" by simp
  from preprocess_no_previous[OF this, of ?img] obtain self' where
    c: "preprocess ?self ?img
        = Inr (replicate (length (concat (map every_second (every_second (take 160 (drop 35 ?img)))))) 0,
               self')"
    and p: "pre_image self' \<noteq> None"
    by blast
  have first: "\<exists>obs self'. atari_reset gym_reset self = Inr (obs, self')
       \<and> (\<forall>x\<in>set obs. x = 0) \<and> pre_image self' \<noteq> None"
    unfolding r c using p by auto
  have second: "\<exists>self'. atari_reset gym_reset self = Inr (replicate 6400 0, self')"
    if "length ?img = 210 \<and> (\<forall>row\<in>set ?img. length row = 160)"
  proof -
    have "length (concat (map every_second (every_second (take 160 (drop 35 ?img))))) = 6400"
      using that by (intro cropped_length) auto
    then show ?thesis
      unfolding r c by auto
  qed
  from first second show ?thesis by blast
qed

theorem C10_reset_observation_zero_witness:
  "length (fst (still_reset ())) = 210
   \<and> list_all (\<lambda>row. length row = 160) (fst (still_reset ()))
   \<and> (\<exists>self'. atari_reset still_reset \<lparr>env = (), pre_image = Some [1, 2, 3]\<rparr>
          = Inr (replicate 6400 0, self'))"
proof -
  have "length (fst (still_reset ())) = 210"
    and "\<forall>row\<in>set (fst (still_reset ())). length row = 160"
    by (simp_all add: still_reset_def black_frame_def)
  then show ?thesis
    using C10_reset_observation_zero [of still_reset "\<lparr>env = (), pre_image = Some [1, 2, 3]\<rparr>"]
    by (simp add: list_all_iff)
qed

end
